theory Spec2Isabelle
  imports Complex_Main "HOL-Library.AList" "HOL-Library.Sublist" "HOL-Library.Multiset"
    "HOL-Library.Log_Nat"
begin

section \<open>Strings and dictionaries of the Python program\<close>

text \<open>
  A Python \<open>str\<close> is a sequence of Unicode code points and \<open>len\<close> counts code points,
  so text is modelled as a list of code points (natural numbers), not as bytes.
  URLs are only compared with the empty string and passed on; they are plain strings.
\<close>

type_synonym codepoint = nat
type_synonym ustr = "codepoint list"
type_synonym url = string

text \<open>
  A Python \<open>dict\<close> keeps its keys in insertion order: assigning to a key that is
  present replaces the value in place, assigning to a new key appends the entry.
  This is the association list with \<open>AList.update\<close>; \<open>d.items()\<close> is the list itself.
\<close>

type_synonym ('k, 'v) dict = "('k \<times> 'v) list"

definition dict_get :: "('k, 'v) dict \<Rightarrow> 'k \<Rightarrow> 'v \<Rightarrow> 'v" where
  "dict_get d k dflt = (case map_of d k of None \<Rightarrow> dflt | Some v \<Rightarrow> v)"

definition dict_set :: "('k, 'v) dict \<Rightarrow> 'k \<Rightarrow> 'v \<Rightarrow> ('k, 'v) dict" where
  "dict_set d k v = AList.update k v d"

text \<open>\<open>dict(pairs)\<close>: the pairs are assigned one after the other to an empty dict.\<close>

definition dict_of_pairs :: "('k \<times> 'v) list \<Rightarrow> ('k, 'v) dict" where
  "dict_of_pairs ps = fold (\<lambda>(k, v) d. dict_set d k v) ps []"

section \<open>\<open>get_web_content\<close>: normalisation of the page text\<close>

text \<open>
  \<open>pattern = re.compile(r'[^a-zA-Z0-9 U+4E00 - U+9FA5]')\<close>: the negated character class.
  The code points are a-z = 97..122, A-Z = 65..90, 0-9 = 48..57,
  U+4E00 = 19968 and U+9FA5 = 40869.
\<close>

definition in_class :: "codepoint \<Rightarrow> bool" where
  "in_class c \<longleftrightarrow>
     (97 \<le> c \<and> c \<le> 122) \<or> (65 \<le> c \<and> c \<le> 90) \<or> (48 \<le> c \<and> c \<le> 57) \<or>
     (19968 \<le> c \<and> c \<le> 40869)"

definition pattern :: "codepoint \<Rightarrow> bool" where
  "pattern c \<longleftrightarrow> \<not> in_class c"

text \<open>
  \<open>re.sub(p, '', s)\<close> for a pattern that matches one character at a time: the scan goes
  from left to right, a matching character is replaced by the empty string, any other
  character is copied.
\<close>

fun re_sub_empty :: "(codepoint \<Rightarrow> bool) \<Rightarrow> ustr \<Rightarrow> ustr" where
  "re_sub_empty p [] = []"
| "re_sub_empty p (c # cs) = (if p c then re_sub_empty p cs else c # re_sub_empty p cs)"

definition normalize :: "ustr \<Rightarrow> ustr" where
  "normalize content = re_sub_empty pattern content"

text \<open>
  The allowed alphabet in the words of the specification: Latin letters, digits, and
  the CJK Unified Ideographs from U+4E00 to U+9FA5.
\<close>

definition allowed :: "codepoint \<Rightarrow> bool" where
  "allowed c \<longleftrightarrow> c \<in> {65..90} \<union> {97..122} \<union> {48..57} \<union> {19968..40869}"

section \<open>\<open>get_web_content\<close>: the word count loop\<close>

text \<open>
  \<open>counts = {}; for word in words: if len(word) == 1: continue
  else: counts[word] = counts.get(word, 0) + 1\<close>
\<close>

fun count_loop :: "ustr list \<Rightarrow> (ustr, int) dict \<Rightarrow> (ustr, int) dict" where
  "count_loop [] counts = counts"
| "count_loop (word # words) counts =
     (if length word = 1 then count_loop words counts
      else count_loop words (dict_set counts word (dict_get counts word 0 + 1)))"

definition aggregate :: "ustr list \<Rightarrow> (ustr, int) dict" where
  "aggregate words = count_loop words []"

section \<open>Sorting and the top entries\<close>

text \<open>
  \<open>items.sort(key=lambda x: x[1], reverse=True)\<close> and
  \<open>sorted(counts.items(), key=lambda x: x[1], reverse=True)\<close>.
  Python's sort is stable, and with \<open>reverse=True\<close> it reverses the list, sorts it
  ascending by the key (stably) and reverses the result, so that elements with equal
  keys keep their original order. The stable ascending sort is \<open>sort_key\<close>: the
  result of a stable sort is determined by the input and the key.
\<close>

definition py_sorted_reverse :: "('a \<Rightarrow> 'k::linorder) \<Rightarrow> 'a list \<Rightarrow> 'a list" where
  "py_sorted_reverse key xs = rev (sort_key key (rev xs))"

text \<open>
  The slice \<open>xs[:num]\<close>: the first \<open>num\<close> elements when \<open>num\<close> is not negative; a
  negative \<open>num\<close> counts from the end, so the slice drops the last \<open>-num\<close> elements.
\<close>

definition py_slice_to :: "'a list \<Rightarrow> int \<Rightarrow> 'a list" where
  "py_slice_to xs num =
     (if 0 \<le> num then take (nat num) xs else take (length xs - nat (- num)) xs)"

definition get_top_counts :: "(ustr, int) dict \<Rightarrow> int \<Rightarrow> (ustr, int) dict" where
  "get_top_counts counts num =
     (let sorted_counts = py_sorted_reverse snd counts
      in dict_of_pairs (py_slice_to sorted_counts num))"

text \<open>
  The end of \<open>get_web_content\<close>:
  \<open>top_words = [items[i][0] for i in range(min(20, len(items)))]\<close> and
  \<open>top_counts = [items[i][1] for i in range(min(20, len(items)))]\<close> on the sorted items.
  The indices are below \<open>len(items)\<close>, so no read is out of range.
\<close>

definition top_words_of :: "(ustr \<times> int) list \<Rightarrow> ustr list" where
  "top_words_of items = map (\<lambda>i. fst (items ! i)) [0 ..< min 20 (length items)]"

definition top_counts_of :: "(ustr \<times> int) list \<Rightarrow> int list" where
  "top_counts_of items = map (\<lambda>i. snd (items ! i)) [0 ..< min 20 (length items)]"

section \<open>Exceptions and Python's float arithmetic\<close>

text \<open>
  The exceptions the program can meet: a division by zero, a quotient too large for a
  float, a missing key, and whatever an external collaborator (\<open>requests\<close>, the HTML
  parser, the segmenter, \<open>urllib\<close>, \<open>streamlit\<close>) raises, kept with its message.
\<close>

datatype py_exception = ZeroDivisionError | OverflowError | KeyError | Raised string

text \<open>
  A Python \<open>float\<close> is an IEEE 754 binary64 number, and every finite binary64 number
  is a rational. An arithmetic operation returns the exact result rounded to the
  nearest binary64 number, ties to the even significand. \<open>fl\<close> is that rounding
  with the exponent unbounded above: with \<open>2^e \<le> |x| < 2^(e+1)\<close> the significand has
  53 bits, so the spacing is \<open>2^(e-52)\<close>, and below \<open>2^(-1022)\<close> (subnormal numbers)
  the spacing stays \<open>2^(-1074)\<close>. The operation overflows when this rounding has
  magnitude \<open>2^1024\<close> or more.
\<close>

definition round_half_even :: "rat \<Rightarrow> int" where
  "round_half_even x =
     (let f = \<lfloor>x\<rfloor>; d = x - of_int f
      in if d < 1 / 2 then f else if 1 / 2 < d then f + 1 else if even f then f else f + 1)"

definition binary_exponent :: "rat \<Rightarrow> int" where
  "binary_exponent x =
     (let (p, q) = quotient_of \<bar>x\<bar>; k = bitlen p - bitlen q
      in if 2 powi k \<le> \<bar>x\<bar> then k else k - 1)"

definition fl :: "rat \<Rightarrow> rat" where
  "fl x = (if x = 0 then 0
           else let s = 2 powi (52 - max (binary_exponent x) (- 1022))
                in of_int (round_half_even (x * s)) / s)"

definition overflows :: "rat \<Rightarrow> bool" where
  "overflows r \<longleftrightarrow> 2 ^ 1024 \<le> \<bar>r\<bar>"

text \<open>A float value: a finite binary64 number, \<open>inf\<close> or \<open>-inf\<close>.\<close>

datatype py_float = Finite rat | Inf_plus | Inf_minus

text \<open>
  \<open>a / b\<close> on two \<open>int\<close>s raises \<open>ZeroDivisionError\<close> when \<open>b\<close> is 0; otherwise it
  is the correctly rounded quotient, and \<open>OverflowError\<close> when that is too large for a
  float. \<open>x * 100\<close> on a float converts 100 exactly and rounds the product, which is
  \<open>inf\<close> or \<open>-inf\<close> on overflow. \<open>round(x, 2)\<close> rounds the exact value of a finite
  \<open>x\<close> to the decimal with 2 places nearest to it, ties to even, and returns the
  binary64 number nearest to that decimal; it returns an infinite \<open>x\<close> as it is.
\<close>

definition py_truediv :: "int \<Rightarrow> int \<Rightarrow> py_exception + rat" where
  "py_truediv a b =
     (if b = 0 then Inl ZeroDivisionError
      else (let r = fl (of_int a / of_int b)
            in if overflows r then Inl OverflowError else Inr r))"

definition py_float_mul :: "rat \<Rightarrow> rat \<Rightarrow> py_float" where
  "py_float_mul x y =
     (let r = fl (x * y)
      in if overflows r then (if 0 < r then Inf_plus else Inf_minus) else Finite r)"

definition two_decimals :: "rat \<Rightarrow> rat" where
  "two_decimals x = of_int (round_half_even (x * 100)) / 100"

definition py_round2 :: "py_float \<Rightarrow> py_float" where
  "py_round2 x =
     (case x of
        Finite r \<Rightarrow> Finite (fl (two_decimals r))
      | Inf_plus \<Rightarrow> Inf_plus
      | Inf_minus \<Rightarrow> Inf_minus)"

section \<open>The presentation adapters\<close>

text \<open>
  The options each adapter hands to \<open>st_echarts\<close>, reduced to the data that depends on
  the input; the constant parts of the options are left out. \<open>st_echarts\<close>, \<open>st.write\<close>
  and \<open>st.warning\<close> are taken not to raise.
\<close>

type_synonym bytes = "nat list"

datatype chart =
    Bar "ustr list" "int list"
  | WordCloud "(ustr \<times> int) list"
  | Pie "(ustr \<times> int) list"
  | Line "ustr list" "int list"
  | Scatter "(ustr \<times> int) list" "ustr list"
  | Funnel "(ustr \<times> py_float) list" "ustr list"
  | Area "ustr list" "int list"

text \<open>
  What the page shows, in order: a chart, an image with its caption, the warning for one
  image, and the four messages the program writes.
\<close>

datatype ui =
    Chart chart
  | Image bytes url
  | Warning url py_exception
  | Write_images_header
  | Write_no_images
  | Write_error py_exception
  | Write_select_function

text \<open>
  A run of a piece of the program: what it has shown, and the exception that escaped
  from it, if any. What was shown before an exception stays on the page.
\<close>

type_synonym outcome = "ui list \<times> py_exception option"

definition display_bar_chart :: "ustr list \<Rightarrow> int list \<Rightarrow> outcome" where
  "display_bar_chart words counts = ([Chart (Bar words counts)], None)"

definition display_word_cloud :: "(ustr, int) dict \<Rightarrow> outcome" where
  "display_word_cloud top_counts = ([Chart (WordCloud (map (\<lambda>(word, cnt). (word, cnt)) top_counts))], None)"

definition display_pie_chart :: "(ustr, int) dict \<Rightarrow> outcome" where
  "display_pie_chart top_counts = ([Chart (Pie (map (\<lambda>(word, cnt). (word, cnt)) top_counts))], None)"

definition display_line_chart :: "ustr list \<Rightarrow> int list \<Rightarrow> outcome" where
  "display_line_chart words counts = ([Chart (Line words counts)], None)"

definition display_scatter_chart :: "(ustr, int) dict \<Rightarrow> ustr list \<Rightarrow> int list \<Rightarrow> outcome" where
  "display_scatter_chart top_counts words counts =
     ([Chart (Scatter (map (\<lambda>(word, cnt). (word, cnt)) top_counts) words)], None)"

definition display_area_chart :: "ustr list \<Rightarrow> int list \<Rightarrow> outcome" where
  "display_area_chart words counts = ([Chart (Area words counts)], None)"

text \<open>
  \<open>display_customized_chart\<close>, the funnel:
  \<open>total_count = sum(counts)\<close>, then
  \<open>data = [{"name": word, "value": round(count / total_count * 100, 2)}
     for word, count in top_counts.items()]\<close>.
  The comprehension evaluates the entries in order and stops at the first exception.
\<close>

definition percent :: "int \<Rightarrow> int \<Rightarrow> py_exception + py_float" where
  "percent cnt total_count =
     (case py_truediv cnt total_count of
        Inl e \<Rightarrow> Inl e
      | Inr q \<Rightarrow> Inr (py_round2 (py_float_mul q 100)))"

fun funnel_data :: "(ustr \<times> int) list \<Rightarrow> int \<Rightarrow> py_exception + (ustr \<times> py_float) list" where
  "funnel_data [] total_count = Inr []"
| "funnel_data ((word, cnt) # rest) total_count =
     (case percent cnt total_count of
        Inl e \<Rightarrow> Inl e
      | Inr v \<Rightarrow>
          (case funnel_data rest total_count of
             Inl e \<Rightarrow> Inl e
           | Inr data \<Rightarrow> Inr ((word, v) # data)))"

definition display_customized_chart :: "(ustr, int) dict \<Rightarrow> ustr list \<Rightarrow> int list \<Rightarrow> outcome" where
  "display_customized_chart top_counts words counts =
     (let total_count = sum_list counts
      in case funnel_data top_counts total_count of
           Inl e \<Rightarrow> ([], Some e)
         | Inr data \<Rightarrow> ([Chart (Funnel data words)], None))"

section \<open>The external collaborators and the image lister\<close>

text \<open>
  The collaborators are parameters of the model, and each of them may raise.
  \<open>requests.get\<close> returns a response for every HTTP status and raises when no response
  arrives; the program calls it up to twice in a cycle, and the two calls need not
  agree, so the call number is an argument. \<open>BeautifulSoup(content, 'html.parser')\<close>
  raises on markup the parser rejects; \<open>soup_get_text\<close> is the parse followed by
  \<open>get_text()\<close>, \<open>soup_find_imgs\<close> the parse followed by \<open>find_all('img')\<close>.
  An \<open>img\<close> tag is modelled by its \<open>src\<close> attribute, which may be missing.
\<close>

record response =
  status_code :: nat
  content :: bytes

record env =
  requests_get :: "nat \<Rightarrow> url \<Rightarrow> py_exception + response"
  soup_get_text :: "bytes \<Rightarrow> py_exception + ustr"
  soup_find_imgs :: "bytes \<Rightarrow> py_exception + url option list"
  jieba_lcut :: "ustr \<Rightarrow> py_exception + ustr list"
  urlopen_read :: "url \<Rightarrow> py_exception + bytes"
  st_image :: "bytes \<Rightarrow> url \<Rightarrow> py_exception option"

text \<open>
  The body of the loop of \<open>display_images\<close> after \<open>img_url = img['src']\<close>: the
  \<open>try\<close> block downloads and shows the image, and any exception in it becomes the
  warning for this image.
\<close>

definition show_image :: "env \<Rightarrow> url \<Rightarrow> ui" where
  "show_image env img_url =
     (case urlopen_read env img_url of
        Inl e \<Rightarrow> Warning img_url e
      | Inr image_bytes \<Rightarrow>
          (case st_image env image_bytes img_url of
             Some e \<Rightarrow> Warning img_url e
           | None \<Rightarrow> Image image_bytes img_url))"

text \<open>\<open>img['src']\<close> is outside the \<open>try\<close>: a tag without \<open>src\<close> raises \<open>KeyError\<close>.\<close>

fun display_images_loop :: "env \<Rightarrow> url option list \<Rightarrow> outcome" where
  "display_images_loop env [] = ([], None)"
| "display_images_loop env (img # images) =
     (case img of
        None \<Rightarrow> ([], Some KeyError)
      | Some img_url \<Rightarrow>
          (let item = show_image env img_url;
               (shown, raised) = display_images_loop env images
           in (item # shown, raised)))"

definition display_images :: "env \<Rightarrow> url option list \<Rightarrow> outcome" where
  "display_images env images =
     (if length images > 0
      then (let (shown, raised) = display_images_loop env images
            in (Write_images_header # shown, raised))
      else ([Write_no_images], None))"

section \<open>\<open>get_web_content\<close> and \<open>run\<close>\<close>

text \<open>
  \<open>get_web_content\<close> has no \<open>try\<close>: an exception of the fetch, of the parser or of the
  segmenter leaves it. The status code of the response is not read.
\<close>

definition get_web_content ::
  "env \<Rightarrow> url \<Rightarrow> py_exception + ((ustr, int) dict \<times> ustr list \<times> int list)" where
  "get_web_content env url =
     (case requests_get env 0 url of
        Inl e \<Rightarrow> Inl e
      | Inr response \<Rightarrow>
          (case soup_get_text env (content response) of
             Inl e \<Rightarrow> Inl e
           | Inr page_text \<Rightarrow>
               (let new_content = normalize page_text
                in case jieba_lcut env new_content of
                     Inl e \<Rightarrow> Inl e
                   | Inr words \<Rightarrow>
                       (let counts = aggregate words;
                            items = py_sorted_reverse snd counts
                        in Inr (counts, top_words_of items, top_counts_of items)))))"

text \<open>
  The sidebar offers eight functions; \<open>None\<close> stands for a selection that is falsy.
\<close>

datatype selected_option =
    Show_bar | Show_cloud | Show_pie | Show_line | Show_scatter | Show_funnel | Show_area
  | Show_images

text \<open>
  \<open>run\<close>, from the button on; the title, the text input and the sidebar are shown in
  every run and are left out. Only the branch of the images has a \<open>try\<close>: an exception
  of \<open>get_web_content\<close> or of a chart adapter escapes from \<open>run\<close>. The function
  \<open>display_web_content\<close>, which has a \<open>try\<close> around a whole cycle, is called nowhere.
\<close>

definition run :: "env \<Rightarrow> url \<Rightarrow> selected_option option \<Rightarrow> bool \<Rightarrow> outcome" where
  "run env url selected button =
     (if button then
        (if url \<noteq> [] then
           (case get_web_content env url of
              Inl e \<Rightarrow> ([], Some e)
            | Inr (counts, top_words, top_counts) \<Rightarrow>
                (let top_20_counts = get_top_counts counts 20
                 in case selected of
                      None \<Rightarrow> ([Write_select_function], None)
                    | Some Show_bar \<Rightarrow> display_bar_chart top_words top_counts
                    | Some Show_cloud \<Rightarrow> display_word_cloud top_20_counts
                    | Some Show_pie \<Rightarrow> display_pie_chart top_20_counts
                    | Some Show_line \<Rightarrow> display_line_chart top_words top_counts
                    | Some Show_scatter \<Rightarrow> display_scatter_chart top_20_counts top_words top_counts
                    | Some Show_funnel \<Rightarrow> display_customized_chart top_20_counts top_words top_counts
                    | Some Show_area \<Rightarrow> display_area_chart top_words top_counts
                    | Some Show_images \<Rightarrow>
                        (case requests_get env 1 url of
                           Inl e \<Rightarrow> ([Write_error e], None)
                         | Inr response \<Rightarrow>
                             (case soup_find_imgs env (content response) of
                                Inl e \<Rightarrow> ([Write_error e], None)
                              | Inr images \<Rightarrow>
                                  (let (shown, raised) = display_images env images
                                   in case raised of
                                        None \<Rightarrow> (shown, None)
                                      | Some e \<Rightarrow> (shown @ [Write_error e], None))))))
         else ([], None))
      else ([], None))"

text \<open>
  The same collaborators, except that the response to the \<open>n\<close>-th request for \<open>u\<close>
  carries the status code \<open>status n u\<close>.
\<close>

definition with_status :: "(nat \<Rightarrow> url \<Rightarrow> nat) \<Rightarrow> env \<Rightarrow> env" where
  "with_status status env =
     env\<lparr>requests_get :=
           (\<lambda>n u. case requests_get env n u of
                     Inl e \<Rightarrow> Inl e
                   | Inr r \<Rightarrow> Inr (r\<lparr>status_code := status n u\<rparr>))\<rparr>"

section \<open>Three concrete pages\<close>

text \<open>
  A server that answers every request with status 404 and the body "Not Found" (as
  bytes), a text extractor that decodes these ASCII bytes, and a segmenter that keeps a
  text without separators as one token.
\<close>

definition not_found_response :: response where
  "not_found_response = \<lparr>status_code = 404, content = [78, 111, 116, 32, 70, 111, 117, 110, 100]\<rparr>"

definition not_found_env :: env where
  "not_found_env =
     \<lparr>requests_get = (\<lambda>n u. Inr not_found_response),
      soup_get_text = (\<lambda>b. Inr b),
      soup_find_imgs = (\<lambda>b. Inr []),
      jieba_lcut = (\<lambda>t. Inr (if t = [] then [] else [t])),
      urlopen_read = (\<lambda>u. Inl (Raised ''HTTP Error 404: Not Found'')),
      st_image = (\<lambda>b u. None)\<rparr>"

text \<open>
  A page with three \<open>img\<close> tags, \<open>a.png\<close>, \<open>b.png\<close> and \<open>c.png\<close>, of which \<open>b.png\<close>
  cannot be downloaded.
\<close>

definition gallery_env :: env where
  "gallery_env =
     \<lparr>requests_get = (\<lambda>n u. Inr \<lparr>status_code = 200, content = []\<rparr>),
      soup_get_text = (\<lambda>b. Inr []),
      soup_find_imgs = (\<lambda>b. Inr [Some ''a.png'', Some ''b.png'', Some ''c.png'']),
      jieba_lcut = (\<lambda>t. Inr []),
      urlopen_read = (\<lambda>u. if u = ''b.png'' then Inl (Raised ''HTTP Error 404: Not Found'')
                             else Inr (map of_char u)),
      st_image = (\<lambda>b u. None)\<rparr>"

text \<open>
  A page with three \<open>img\<close> tags: \<open>b.png\<close>, which cannot be downloaded, a tag without
  a \<open>src\<close> attribute (as lazy loading leaves it), and \<open>c.png\<close>.
\<close>

definition lazy_gallery_env :: env where
  "lazy_gallery_env =
     \<lparr>requests_get = (\<lambda>n u. Inr \<lparr>status_code = 200, content = []\<rparr>),
      soup_get_text = (\<lambda>b. Inr []),
      soup_find_imgs = (\<lambda>b. Inr [Some ''b.png'', None, Some ''c.png'']),
      jieba_lcut = (\<lambda>t. Inr []),
      urlopen_read = (\<lambda>u. if u = ''b.png'' then Inl (Raised ''HTTP Error 404: Not Found'')
                             else Inr (map of_char u)),
      st_image = (\<lambda>b u. None)\<rparr>"

section \<open>Properties of the normaliser\<close>

lemma re_sub_empty_filter: "re_sub_empty p cs = filter (\<lambda>c. \<not> p c) cs"
  by (induction cs) simp_all

lemma allowed_in_class: "allowed c \<longleftrightarrow> in_class c"
  by (auto simp: allowed_def in_class_def)

lemma allowed_eq_in_class: "allowed = in_class"
  by (rule ext) (simp add: allowed_in_class)

lemma normalize_filter: "normalize text = filter allowed text"
  by (simp add: normalize_def re_sub_empty_filter pattern_def allowed_eq_in_class)

text \<open>
  C5. The normalised text is the subsequence of the input made of exactly the allowed
  characters: every allowed character is kept in place, every other character is
  deleted (nothing is put in its place), so no disallowed character remains.
\<close>

theorem normalize_keeps_exactly_allowed:
  "normalize text = filter allowed text \<and> subseq (normalize text) text \<and>
   list_all allowed (normalize text)"
  by (simp add: normalize_filter list_all_iff)

text \<open>C9. Normalising twice is the same as normalising once.\<close>

theorem normalize_idempotent: "normalize (normalize x) = normalize x"
  by (simp add: normalize_filter)

section \<open>Properties of the word count loop\<close>

lemma map_of_dict_set: "map_of (dict_set d k v) = (map_of d)(k \<mapsto> v)"
  by (simp add: dict_set_def update_conv')

lemma distinct_dict_set: "distinct (map fst d) \<Longrightarrow> distinct (map fst (dict_set d k v))"
  by (simp add: dict_set_def distinct_update)

lemma keys_dict_set: "fst ` set (dict_set d k v) = insert k (fst ` set d)"
  by (simp add: dict_set_def dom_update)

lemma sum_dict_set:
  "sum_list (map snd (dict_set d k v)) = sum_list (map snd d) - dict_get d k 0 + (v::int)"
  by (induction d) (auto simp: dict_set_def dict_get_def)

lemma count_loop_snoc:
  "count_loop (words @ [w]) d =
     (if length w = 1 then count_loop words d
      else dict_set (count_loop words d) w (dict_get (count_loop words d) w 0 + 1))"
  by (induction words arbitrary: d) simp_all

lemma distinct_count_loop:
  "distinct (map fst d) \<Longrightarrow> distinct (map fst (count_loop words d))"
  by (induction words arbitrary: d) (simp_all add: distinct_dict_set)

lemma map_of_count_loop:
  "map_of (count_loop words d) w =
     (if length w \<noteq> 1 \<and> w \<in> set words
      then Some (dict_get d w 0 + int (count_list words w))
      else map_of d w)"
proof (induction words arbitrary: d)
  case Nil
  show ?case by simp
next
  case (Cons x xs)
  show ?case
  proof (cases "length x = 1")
    case True
    then show ?thesis using Cons.IH [of d] by auto
  next
    case False
    then show ?thesis
      using Cons.IH [of "dict_set d x (dict_get d x 0 + 1)"]
      by (auto simp: map_of_dict_set dict_get_def)
  qed
qed

lemma sum_count_loop:
  "sum_list (map snd (count_loop words d)) =
     sum_list (map snd d) + int (length (filter (\<lambda>w. length w \<noteq> 1) words))"
  by (induction words arbitrary: d) (simp_all add: sum_dict_set)

lemma map_of_aggregate:
  "map_of (aggregate words) w =
     (if length w \<noteq> 1 \<and> w \<in> set words then Some (int (count_list words w)) else None)"
  by (simp add: aggregate_def map_of_count_loop dict_get_def)

lemma distinct_aggregate: "distinct (map fst (aggregate words))"
  by (simp add: aggregate_def distinct_count_loop)

lemma aggregate_entry:
  assumes "(w, c) \<in> set (aggregate words)"
  shows "length w \<noteq> 1 \<and> w \<in> set words \<and> c = int (count_list words w) \<and> 0 < c"
proof -
  from assms have "map_of (aggregate words) w = Some c"
    by (simp add: distinct_aggregate)
  then have *: "length w \<noteq> 1 \<and> w \<in> set words \<and> c = int (count_list words w)"
    by (auto simp: map_of_aggregate split: if_splits)
  then have "count_list words w \<noteq> 0"
    by (simp add: count_list_0_iff)
  with * show ?thesis by simp
qed

lemma sum_aggregate:
  "sum_list (map snd (aggregate words)) = int (length (filter (\<lambda>w. length w \<noteq> 1) words))"
  by (simp add: aggregate_def sum_count_loop)

lemma no_empty_token_filter:
  assumes "[] \<notin> set words"
  shows "filter (\<lambda>w. length w \<noteq> 1) words = filter (\<lambda>w. 2 \<le> length w) words"
proof (rule filter_cong [OF refl])
  fix w assume "w \<in> set words"
  with assms have "w \<noteq> []" by auto
  then have "length w \<noteq> 0" by simp
  then show "(length w \<noteq> 1) = (2 \<le> length w)" by arith
qed


lemma set_aggregate_keys:
  "fst ` set (aggregate words) = {w \<in> set words. length w \<noteq> 1}"
proof -
  have "fst ` set (aggregate words) = dom (map_of (aggregate words))"
    by (simp add: dom_map_of_conv_image_fst)
  also have "\<dots> = {w \<in> set words. length w \<noteq> 1}"
    by (auto simp: map_of_aggregate dom_def)
  finally show ?thesis .
qed

text \<open>
  C3, as the code has it. The loop skips the tokens of length exactly 1 and counts every
  other token, the empty token included. So the values sum to the number of tokens
  whose length is not 1, every key has a length other than 1 and every value is
  positive; for a token sequence without an empty token this is the number of tokens
  of length at least 2, and every key has length at least 2.
\<close>

theorem aggregate_invariant:
  "sum_list (map snd (aggregate words)) = int (length (filter (\<lambda>w. length w \<noteq> 1) words)) \<and>
   list_all (\<lambda>(w, c). length w \<noteq> 1 \<and> 0 < c) (aggregate words) \<and>
   ([] \<notin> set words \<longrightarrow>
      sum_list (map snd (aggregate words)) = int (length (filter (\<lambda>w. 2 \<le> length w) words)) \<and>
      list_all (\<lambda>(w, c). 2 \<le> length w \<and> 0 < c) (aggregate words))"
proof (intro conjI impI)
  show "sum_list (map snd (aggregate words)) = int (length (filter (\<lambda>w. length w \<noteq> 1) words))"
    by (rule sum_aggregate)
  show "list_all (\<lambda>(w, c). length w \<noteq> 1 \<and> 0 < c) (aggregate words)"
    using aggregate_entry by (fastforce simp: list_all_iff)
next
  assume ne: "[] \<notin> set words"
  show "sum_list (map snd (aggregate words)) = int (length (filter (\<lambda>w. 2 \<le> length w) words))"
    by (simp only: sum_aggregate no_empty_token_filter [OF ne])
  show "list_all (\<lambda>(w, c). 2 \<le> length w \<and> 0 < c) (aggregate words)"
    unfolding list_all_iff
  proof (clarify)
    fix w c assume in_table: "(w, c) \<in> set (aggregate words)"
    from aggregate_entry [OF in_table]
    have e: "length w \<noteq> 1" "w \<in> set words" "0 < c" by simp_all
    with ne have "w \<noteq> []" by auto
    then have "length w \<noteq> 0" by simp
    with e show "2 \<le> length w \<and> 0 < c" by arith
  qed
qed

text \<open>
  The token sequence "hi", "a", "hi", "cat": the single character is skipped, the
  table is hi: 2, cat: 1.
\<close>

theorem aggregate_invariant_witness:
  "[] \<notin> set [[104, 105], [97], [104, 105], [99, 97, 116::nat]] \<and>
   aggregate [[104, 105], [97], [104, 105], [99, 97, 116]] = [([104, 105], 2), ([99, 97, 116], 1)] \<and>
   sum_list (map snd (aggregate [[104, 105], [97], [104, 105], [99, 97, 116]])) =
     int (length (filter (\<lambda>w. 2 \<le> length w) [[104, 105], [97], [104, 105], [99, 97, 116::nat]]))"
  using aggregate_invariant [of "[[104, 105], [97], [104, 105], [99, 97, 116]]"]
  by (simp add: aggregate_def dict_set_def dict_get_def)

text \<open>
  The claim C3 as stated fails on the token sequence that holds one empty token: the
  empty token is counted, so the table has a key of length 0 and the values sum to 1,
  while no token has length at least 2.
\<close>

theorem aggregate_empty_token_counterexample:
  "aggregate [[]] = [([], 1)] \<and>
   sum_list (map snd (aggregate [[]])) \<noteq> int (length (filter (\<lambda>w. 2 \<le> length w) [[]::ustr])) \<and>
   \<not> list_all (\<lambda>(w, c). 2 \<le> length w \<and> 0 < c) (aggregate [[]])"
  by (simp add: aggregate_def dict_set_def dict_get_def)

text \<open>
  C4. A token of length exactly 1 is skipped and leaves the table as it is; any other
  token has its count incremented, starting at 1 on its first occurrence. So the table
  has no entry for a token of length 1, and the entry of any other token that occurs
  is the number of its occurrences.
\<close>

theorem aggregate_counts_tokens:
  "aggregate (words @ [w]) =
     (if length w = 1 then aggregate words
      else dict_set (aggregate words) w
             (case map_of (aggregate words) w of None \<Rightarrow> 1 | Some c \<Rightarrow> c + 1)) \<and>
   map_of (aggregate words) t =
     (if length t \<noteq> 1 \<and> t \<in> set words then Some (int (count_list words t)) else None)"
proof
  show "aggregate (words @ [w]) =
     (if length w = 1 then aggregate words
      else dict_set (aggregate words) w
             (case map_of (aggregate words) w of None \<Rightarrow> 1 | Some c \<Rightarrow> c + 1))"
    by (simp add: aggregate_def count_loop_snoc dict_get_def split: option.split)
  show "map_of (aggregate words) t =
     (if length t \<noteq> 1 \<and> t \<in> set words then Some (int (count_list words t)) else None)"
    by (rule map_of_aggregate)
qed

theorem aggregate_counts_tokens_witness:
  "aggregate ([[104, 105], [97]] @ [[104, 105]]) = [([104, 105], 2)] \<and>
   map_of (aggregate [[104, 105], [97]]) [97] = None \<and>
   map_of (aggregate [[104, 105], [97]]) [104, 105] = Some 1"
  using aggregate_counts_tokens [of "[[104, 105], [97]]" "[104, 105]" "[97]"]
        aggregate_counts_tokens [of "[[104, 105], [97]]" "[104, 105]" "[104, 105]"]
  by (simp add: aggregate_def dict_set_def dict_get_def)


section \<open>Properties of the sort and of the top entries\<close>

lemma dict_set_fresh:
  "k \<notin> fst ` set d \<Longrightarrow> dict_set d k v = d @ [(k, v)]"
  by (induction d) (auto simp: dict_set_def)

lemma fold_dict_set_distinct:
  "distinct (map fst (acc @ ps)) \<Longrightarrow> fold (\<lambda>(k, v) d. dict_set d k v) ps acc = acc @ ps"
proof (induction ps arbitrary: acc)
  case Nil
  show ?case by simp
next
  case (Cons p ps)
  obtain k v where p: "p = (k, v)" by (cases p)
  from Cons.prems have fresh: "k \<notin> fst ` set acc" by (auto simp: p)
  from Cons.prems have "distinct (map fst ((acc @ [(k, v)]) @ ps))" by (simp add: p)
  from Cons.IH [OF this] show ?case by (simp add: p dict_set_fresh [OF fresh])
qed

lemma dict_of_pairs_distinct: "distinct (map fst ps) \<Longrightarrow> dict_of_pairs ps = ps"
  using fold_dict_set_distinct [of "[]" ps] by (simp add: dict_of_pairs_def)

lemma mset_py_sorted_reverse: "mset (py_sorted_reverse key xs) = mset xs"
  by (simp add: py_sorted_reverse_def)

lemma length_py_sorted_reverse: "length (py_sorted_reverse key xs) = length xs"
  by (simp add: py_sorted_reverse_def)

lemma set_py_sorted_reverse: "set (py_sorted_reverse key xs) = set xs"
  by (simp add: py_sorted_reverse_def)

lemma distinct_keys_py_sorted_reverse:
  "distinct (map fst (py_sorted_reverse key xs)) = distinct (map fst xs)"
proof -
  have "mset (map fst (py_sorted_reverse key xs)) = mset (map fst xs)"
    by (simp add: mset_py_sorted_reverse)
  then show ?thesis by (rule mset_eq_imp_distinct_iff)
qed

lemma sum_py_sorted_reverse:
  "sum_list (map snd (py_sorted_reverse key xs)) = (sum_list (map snd xs) :: int)"
proof -
  have "mset (map snd (py_sorted_reverse key xs)) = mset (map snd xs)"
    by (simp add: mset_py_sorted_reverse)
  then show ?thesis by (metis sum_mset_sum_list)
qed

lemma py_sorted_reverse_descending:
  "sorted_wrt (\<lambda>a b. key b \<le> key a) (py_sorted_reverse key xs)"
proof -
  have "sorted (map key (sort_key key (rev xs)))" by simp
  then have "sorted_wrt (\<lambda>a b. key a \<le> key b) (sort_key key (rev xs))"
    by (simp add: sorted_map)
  then show ?thesis
    by (simp add: py_sorted_reverse_def sorted_wrt_rev)
qed

lemma py_sorted_reverse_stable:
  "filter (\<lambda>y. key y = k) (py_sorted_reverse key xs) = filter (\<lambda>y. key y = k) xs"
proof -
  have "filter (\<lambda>y. key y = k) (py_sorted_reverse key xs) =
        rev (filter (\<lambda>y. key y = k) (sort_key key (rev xs)))"
    by (simp add: py_sorted_reverse_def rev_filter)
  also have "\<dots> = rev (filter (\<lambda>y. key y = k) (rev xs))"
    by (simp only: sort_key_stable)
  also have "\<dots> = filter (\<lambda>y. key y = k) xs"
    by (simp add: rev_filter)
  finally show ?thesis .
qed

lemma py_slice_to_take: "\<exists>m. py_slice_to xs num = take m xs"
  by (auto simp: py_slice_to_def)

lemma py_slice_to_all: "int (length xs) \<le> num \<Longrightarrow> py_slice_to xs num = xs"
  by (simp add: py_slice_to_def)

lemma length_py_slice_to:
  "0 \<le> num \<Longrightarrow> int (length (py_slice_to xs num)) = min num (int (length xs))"
  by (auto simp: py_slice_to_def)

lemma get_top_counts_take:
  assumes "distinct (map fst counts)"
  shows "get_top_counts counts num = py_slice_to (py_sorted_reverse snd counts) num"
proof -
  obtain m where m: "py_slice_to (py_sorted_reverse snd counts) num =
      take m (py_sorted_reverse snd counts)"
    using py_slice_to_take by blast
  have "distinct (map fst (py_sorted_reverse snd counts))"
    using assms by (simp add: distinct_keys_py_sorted_reverse)
  then have "distinct (map fst (take m (py_sorted_reverse snd counts)))"
    by (simp add: take_map [symmetric] distinct_take)
  then show ?thesis
    by (simp add: get_top_counts_def m dict_of_pairs_distinct)
qed

lemma length_get_top_counts:
  assumes "distinct (map fst counts)" and "0 \<le> num"
  shows "int (length (get_top_counts counts num)) = min num (int (length counts))"
  using assms
  by (simp add: get_top_counts_take length_py_slice_to length_py_sorted_reverse)

lemma top_words_of_take: "top_words_of items = map fst (take 20 items)"
  by (auto simp: top_words_of_def list_eq_iff_nth_eq)

lemma top_counts_of_take: "top_counts_of items = map snd (take 20 items)"
  by (auto simp: top_counts_of_def list_eq_iff_nth_eq)

lemma top_lists_agree:
  assumes "distinct (map fst counts)"
  shows "top_words_of (py_sorted_reverse snd counts) = map fst (get_top_counts counts 20)"
    and "top_counts_of (py_sorted_reverse snd counts) = map snd (get_top_counts counts 20)"
  using assms
  by (simp_all add: top_words_of_take top_counts_of_take get_top_counts_take py_slice_to_def)

lemma sum_take_le:
  assumes "\<forall>x \<in> set xs. (0::int) \<le> f x"
  shows "sum_list (map f (take m xs)) \<le> sum_list (map f xs)"
proof -
  have "sum_list (map f xs) = sum_list (map f (take m xs)) + sum_list (map f (drop m xs))"
    by (metis append_take_drop_id map_append sum_list.append)
  moreover have "0 \<le> sum_list (map f (drop m xs))"
  proof (rule sum_list_nonneg)
    fix y assume "y \<in> set (map f (drop m xs))"
    then obtain x where "x \<in> set (drop m xs)" "y = f x" by auto
    with assms show "0 \<le> y" by (auto dest: in_set_dropD)
  qed
  ultimately show ?thesis by simp
qed

lemma get_top_counts_stable:
  assumes "distinct (map fst counts)"
  shows "prefix (filter (\<lambda>e. snd e = c) (get_top_counts counts num))
                (filter (\<lambda>e. snd e = c) counts)"
proof -
  obtain m where m: "py_slice_to (py_sorted_reverse snd counts) num =
      take m (py_sorted_reverse snd counts)"
    using py_slice_to_take by blast
  have "prefix (take m (py_sorted_reverse snd counts)) (py_sorted_reverse snd counts)"
    by (rule take_is_prefix)
  then have "prefix (filter (\<lambda>e. snd e = c) (take m (py_sorted_reverse snd counts)))
                    (filter (\<lambda>e. snd e = c) (py_sorted_reverse snd counts))"
    by (rule filter_mono_prefix)
  then show ?thesis
    by (simp add: get_top_counts_take [OF assms] m py_sorted_reverse_stable)
qed

lemma get_top_counts_descending:
  assumes "distinct (map fst counts)"
  shows "sorted_wrt (\<lambda>a b. snd b \<le> snd a) (get_top_counts counts num)"
proof -
  obtain m where m: "py_slice_to (py_sorted_reverse snd counts) num =
      take m (py_sorted_reverse snd counts)"
    using py_slice_to_take by blast
  have "sorted_wrt (\<lambda>a b. snd b \<le> snd a) (py_sorted_reverse snd counts)"
    by (rule py_sorted_reverse_descending)
  then have "sorted_wrt (\<lambda>a b. snd b \<le> snd a) (take m (py_sorted_reverse snd counts))"
    by (rule sorted_wrt_take)
  then show ?thesis
    by (simp add: get_top_counts_take [OF assms] m)
qed

lemma get_top_counts_exact:
  assumes "distinct (map fst counts)" and "0 \<le> num"
  shows "get_top_counts counts num = take (nat num) (py_sorted_reverse snd counts)"
  using assms by (simp add: get_top_counts_take py_slice_to_def)

text \<open>
  C2. A frequency table is a dict, so its keys are distinct and its entries are in the
  order of first insertion; \<open>num\<close> is a number of entries, so it is not negative. The
  result has at most \<open>min(num, |table|)\<close> entries, it is sorted by count descending,
  and the entries of any one count appear in the order they have in the table (they are
  an initial part of the table's entries with that count). More precisely, the result
  is the first \<open>num\<close> entries of the stable descending sort of the table: of the
  rearrangement of the table that is sorted by count descending and keeps the entries
  of every count in their order.
\<close>

theorem get_top_counts_sorted_stable:
  assumes "distinct (map fst counts)" and "0 \<le> num"
  shows "int (length (get_top_counts counts num)) \<le> min num (int (length counts)) \<and>
         sorted_wrt (\<lambda>a b. snd b \<le> snd a) (get_top_counts counts num) \<and>
         (\<forall>c. prefix (filter (\<lambda>e. snd e = c) (get_top_counts counts num))
                      (filter (\<lambda>e. snd e = c) counts)) \<and>
         (\<exists>s. mset s = mset counts \<and>
              sorted_wrt (\<lambda>a b. snd b \<le> snd a) s \<and>
              (\<forall>c. filter (\<lambda>e. snd e = c) s = filter (\<lambda>e. snd e = c) counts) \<and>
              get_top_counts counts num = take (nat num) s)"
proof (intro conjI allI)
  show "int (length (get_top_counts counts num)) \<le> min num (int (length counts))"
    using assms by (simp add: length_get_top_counts)
  show "sorted_wrt (\<lambda>a b. snd b \<le> snd a) (get_top_counts counts num)"
    using assms(1) by (rule get_top_counts_descending)
  show "prefix (filter (\<lambda>e. snd e = c) (get_top_counts counts num))
               (filter (\<lambda>e. snd e = c) counts)" for c
    using assms(1) by (rule get_top_counts_stable)
  show "\<exists>s. mset s = mset counts \<and>
              sorted_wrt (\<lambda>a b. snd b \<le> snd a) s \<and>
              (\<forall>c. filter (\<lambda>e. snd e = c) s = filter (\<lambda>e. snd e = c) counts) \<and>
              get_top_counts counts num = take (nat num) s"
  proof (intro exI conjI allI)
    show "mset (py_sorted_reverse snd counts) = mset counts"
      by (rule mset_py_sorted_reverse)
    show "sorted_wrt (\<lambda>a b. snd b \<le> snd a) (py_sorted_reverse snd counts)"
      by (rule py_sorted_reverse_descending)
    show "filter (\<lambda>e. snd e = c) (py_sorted_reverse snd counts) = filter (\<lambda>e. snd e = c) counts"
      for c by (rule py_sorted_reverse_stable)
    show "get_top_counts counts num = take (nat num) (py_sorted_reverse snd counts)"
      using assms by (rule get_top_counts_exact)
  qed
qed

text \<open>
  The table cat: 1, hi: 2, dog: 1, ok: 2 and \<open>num\<close> = 3: the result is hi: 2, ok: 2,
  cat: 1, the two words of count 2 in their insertion order.
\<close>

theorem get_top_counts_sorted_stable_witness:
  "distinct (map fst [([99, 97, 116], 1), ([104, 105], 2), ([100, 111, 103], 1), ([111, 107::nat], 2::int)]) \<and>
   (0::int) \<le> 3 \<and>
   get_top_counts [([99, 97, 116], 1), ([104, 105], 2), ([100, 111, 103], 1), ([111, 107], 2)] 3 =
     [([104, 105], 2), ([111, 107], 2), ([99, 97, 116], 1)] \<and>
   sorted_wrt (\<lambda>a b. snd b \<le> snd a)
     (get_top_counts [([99, 97, 116], 1), ([104, 105], 2), ([100, 111, 103], 1), ([111, 107], 2)] 3)"
  using get_top_counts_sorted_stable
    [of "[([99, 97, 116], 1), ([104, 105], 2), ([100, 111, 103], 1), ([111, 107], 2)]" 3]
  by (simp add: get_top_counts_def py_sorted_reverse_def py_slice_to_def dict_of_pairs_def
      dict_set_def)

text \<open>
  C7. For a frequency table (distinct keys, positive counts) and every \<open>num\<close>, the
  counts of the top entries sum to at most the sum of all counts of the table, and to
  exactly that sum when \<open>num\<close> is at least the number of entries.
\<close>

theorem get_top_counts_sum_le:
  assumes "distinct (map fst counts)" and "list_all (\<lambda>(w, c). 0 < c) counts"
  shows "sum_list (map snd (get_top_counts counts num)) \<le> sum_list (map snd counts) \<and>
         (int (length counts) \<le> num \<longrightarrow>
            sum_list (map snd (get_top_counts counts num)) = sum_list (map snd counts))"
proof (intro conjI impI)
  obtain m where m: "py_slice_to (py_sorted_reverse snd counts) num =
      take m (py_sorted_reverse snd counts)"
    using py_slice_to_take by blast
  have "\<forall>e \<in> set (py_sorted_reverse snd counts). 0 \<le> snd e"
    using assms(2) by (fastforce simp: set_py_sorted_reverse list_all_iff)
  then have "sum_list (map snd (take m (py_sorted_reverse snd counts)))
      \<le> sum_list (map snd (py_sorted_reverse snd counts))"
    by (rule sum_take_le)
  then show "sum_list (map snd (get_top_counts counts num)) \<le> sum_list (map snd counts)"
    by (simp add: get_top_counts_take [OF assms(1)] m sum_py_sorted_reverse)
next
  assume "int (length counts) \<le> num"
  then have "py_slice_to (py_sorted_reverse snd counts) num = py_sorted_reverse snd counts"
    by (simp add: py_slice_to_all length_py_sorted_reverse)
  then show "sum_list (map snd (get_top_counts counts num)) = sum_list (map snd counts)"
    by (simp add: get_top_counts_take [OF assms(1)] sum_py_sorted_reverse)
qed

theorem get_top_counts_sum_le_witness:
  "distinct (map fst [([99, 97, 116], 1), ([104, 105], 2), ([100, 111, 103::nat], 1::int)]) \<and>
   list_all (\<lambda>(w, c). 0 < c) [([99, 97, 116], 1), ([104, 105], 2), ([100, 111, 103::nat], 1::int)] \<and>
   sum_list (map snd (get_top_counts [([99, 97, 116], 1), ([104, 105], 2), ([100, 111, 103], 1)] 2)) = 3 \<and>
   sum_list (map snd [([99, 97, 116], 1), ([104, 105], 2), ([100, 111, 103::nat], 1::int)]) = 4 \<and>
   int (length [([99, 97, 116], 1), ([104, 105], 2), ([100, 111, 103::nat], 1::int)]) \<le> 3 \<and>
   sum_list (map snd (get_top_counts [([99, 97, 116], 1), ([104, 105], 2), ([100, 111, 103], 1)] 3)) = 4"
  using get_top_counts_sum_le [of "[([99, 97, 116], 1), ([104, 105], 2), ([100, 111, 103], 1)]" 2]
        get_top_counts_sum_le [of "[([99, 97, 116], 1), ([104, 105], 2), ([100, 111, 103], 1)]" 3]
  by (simp add: get_top_counts_def py_sorted_reverse_def py_slice_to_def dict_of_pairs_def
      dict_set_def)



section \<open>Rounding error of the float operations\<close>

lemma round_half_even_error: "\<bar>of_int (round_half_even x) - x\<bar> \<le> 1 / 2"
proof -
  have "of_int \<lfloor>x\<rfloor> \<le> x" "x < of_int \<lfloor>x\<rfloor> + 1"
    by linarith+
  then show ?thesis
    by (auto simp: round_half_even_def Let_def)
qed

lemma binary_exponent_lower:
  assumes "x \<noteq> 0"
  shows "2 powi (binary_exponent x) \<le> \<bar>x\<bar>"
proof -
  obtain p q where pq: "quotient_of \<bar>x\<bar> = (p, q)"
    by (cases "quotient_of \<bar>x\<bar>")
  then have q: "0 < q" and x: "\<bar>x\<bar> = of_int p / of_int q"
    by (simp_all add: quotient_of_denom_pos quotient_of_div)
  from assms x q have p: "0 < p"
    by (smt (verit) divide_nonpos_pos of_int_le_0_iff of_int_pos zero_less_abs_iff not_less)
  let ?k = "bitlen p - bitlen q"
  show ?thesis
  proof (cases "2 powi ?k \<le> \<bar>x\<bar>")
    case True
    then show ?thesis by (simp add: binary_exponent_def pq)
  next
    case False
    have bp: "1 \<le> bitlen p" and bq: "1 \<le> bitlen q"
      using p q by (auto simp: bitlen_alt_def)
    have "(2::int) ^ nat (bitlen p - 1) \<le> p" using bitlen_bounds [OF p] by simp
    then have lo: "(2::rat) ^ nat (bitlen p - 1) \<le> of_int p"
      by (metis of_int_le_iff of_int_numeral of_int_power)
    have "q < (2::int) ^ nat (bitlen q)" using bitlen_bounds [OF q] by simp
    then have hi: "of_int q < (2::rat) ^ nat (bitlen q)"
      by (metis of_int_less_iff of_int_numeral of_int_power)
    have "2 powi (?k - 1) = (2::rat) powi ((bitlen p - 1) - bitlen q)"
      by (rule arg_cong [where f = "\<lambda>n. 2 powi n"]) simp
    also have "\<dots> = (2::rat) powi (bitlen p - 1) / 2 powi (bitlen q)"
      by (rule power_int_diff) simp
    also have "\<dots> = (2::rat) ^ nat (bitlen p - 1) / 2 ^ nat (bitlen q)"
      using bp bq by (simp add: power_int_nonneg_exp)
    also have "\<dots> \<le> of_int p / 2 ^ nat (bitlen q)"
      using lo by (simp add: divide_right_mono)
    also have "\<dots> \<le> of_int p / of_int q"
      using hi p q by (simp add: frac_le)
    finally have "2 powi (?k - 1) \<le> \<bar>x\<bar>" by (simp add: x)
    with False show ?thesis by (simp add: binary_exponent_def pq)
  qed
qed


lemma binary_exponent_le:
  assumes "x \<noteq> 0" and "\<bar>x\<bar> \<le> 128"
  shows "binary_exponent x \<le> 7"
proof -
  have "(2::rat) powi (binary_exponent x) \<le> 2 powi 7"
    using binary_exponent_lower [OF assms(1)] assms(2) by simp
  then show ?thesis
    by (rule power_int_le_imp_le_exp [rotated]) simp_all
qed

lemma fl_error:
  assumes "\<bar>x\<bar> \<le> 128"
  shows "\<bar>fl x - x\<bar> \<le> 1 / 2 ^ 46"
proof (cases "x = 0")
  case True
  then show ?thesis by (simp add: fl_def)
next
  case False
  define s :: rat where "s = 2 powi (52 - max (binary_exponent x) (- 1022))"
  have "45 \<le> 52 - max (binary_exponent x) (- 1022)"
    using binary_exponent_le [OF False assms] by simp
  then have "(2::rat) powi 45 \<le> s"
    unfolding s_def by (intro power_int_increasing) simp_all
  then have s45: "2 ^ 45 \<le> s" by simp
  have s0: "0 < s" unfolding s_def by simp
  have fl: "fl x = of_int (round_half_even (x * s)) / s"
    using False by (simp add: fl_def s_def Let_def)
  have "\<bar>fl x - x\<bar> = \<bar>of_int (round_half_even (x * s)) - x * s\<bar> / s"
    using s0 by (simp add: fl field_simps abs_divide) 
  also have "\<dots> \<le> (1 / 2) / s"
  proof (rule divide_right_mono)
    show "\<bar>of_int (round_half_even (x * s)) - x * s\<bar> \<le> 1 / 2"
      by (rule round_half_even_error)
    show "0 \<le> s" using s0 by simp
  qed
  also have "\<dots> \<le> (1 / 2) / 2 ^ 45"
    using s45 by (simp add: frac_le)
  also have "\<dots> = 1 / 2 ^ 46" by simp
  finally show ?thesis .
qed


lemma fl_error_numeral:
  "\<bar>x\<bar> \<le> 128 \<Longrightarrow> \<bar>fl x - x\<bar> \<le> 1 / 70368744177664"
  using fl_error [of x] by simp


lemma not_overflows: "\<bar>r\<bar> \<le> 129 \<Longrightarrow> \<not> overflows r"
proof -
  assume r: "\<bar>r\<bar> \<le> 129"
  have "(2::rat) ^ 8 \<le> 2 ^ 1024" by (rule power_increasing) simp_all
  then have "(256::rat) \<le> 2 ^ 1024" by simp
  with r show ?thesis unfolding overflows_def by linarith
qed

lemma two_decimals_error: "\<bar>two_decimals x - x\<bar> \<le> 1 / 200"
proof -
  have "\<bar>of_int (round_half_even (x * 100)) - x * 100\<bar> \<le> 1 / 2"
    by (rule round_half_even_error)
  then show ?thesis unfolding two_decimals_def by linarith
qed

text \<open>
  For a count between 0 and a positive total, no step of
  \<open>round(count / total_count * 100, 2)\<close> overflows, the value is the decimal rounding
  of the binary64 product, and it is within \<open>0.005 + 2^(-39)\<close> of the exact percentage.
\<close>

lemma percent_value:
  assumes T: "0 < total_count" and c: "0 \<le> cnt" "cnt \<le> total_count"
  shows "percent cnt total_count =
           Inr (Finite (fl (two_decimals (fl (fl (of_int cnt / of_int total_count) * 100)))))"
    and "\<bar>fl (two_decimals (fl (fl (of_int cnt / of_int total_count) * 100)))
            - 100 * of_int cnt / of_int total_count\<bar> \<le> 1 / 200 + 1 / 2 ^ 39"
proof -
  define x :: rat where "x = of_int cnt / of_int total_count"
  define q where "q = fl x"
  define p where "p = fl (q * 100)"
  define h where "h = two_decimals p"
  define v where "v = fl h"
  have x0: "0 \<le> x" using T c by (simp add: x_def)
  have x1: "x \<le> 1" using T c by (simp add: x_def)
  have "\<bar>x\<bar> \<le> 128" using x0 x1 by linarith
  then have eq: "\<bar>q - x\<bar> \<le> 1 / 70368744177664"
    unfolding q_def by (rule fl_error_numeral)
  have "\<bar>q * 100\<bar> \<le> 128" using eq x0 x1 by linarith
  then have ep: "\<bar>p - q * 100\<bar> \<le> 1 / 70368744177664"
    unfolding p_def by (rule fl_error_numeral)
  have eh: "\<bar>h - p\<bar> \<le> 1 / 200"
    unfolding h_def by (rule two_decimals_error)
  have "\<bar>h\<bar> \<le> 128" using eh ep eq x0 x1 by linarith
  then have ev: "\<bar>v - h\<bar> \<le> 1 / 70368744177664"
    unfolding v_def by (rule fl_error_numeral)
  have "\<bar>q\<bar> \<le> 129" using eq x0 x1 by linarith
  then have nq: "\<not> overflows q" by (rule not_overflows)
  have "\<bar>p\<bar> \<le> 129" using ep eq x0 x1 by linarith
  then have np: "\<not> overflows p" by (rule not_overflows)
  have "py_truediv cnt total_count = Inr q"
    using T nq by (simp add: py_truediv_def q_def x_def)
  moreover have "py_float_mul q 100 = Finite p"
    using np by (simp add: py_float_mul_def p_def)
  ultimately have "percent cnt total_count = Inr (Finite v)"
    by (simp add: percent_def py_round2_def v_def h_def)
  then show "percent cnt total_count =
           Inr (Finite (fl (two_decimals (fl (fl (of_int cnt / of_int total_count) * 100)))))"
    by (simp add: v_def h_def p_def q_def x_def)
  have "\<bar>v - 100 * x\<bar> \<le> 1 / 200 + 1 / 549755813888"
    using ev eh ep eq by linarith
  then have "\<bar>v - 100 * x\<bar> \<le> 1 / 200 + 1 / 2 ^ 39" by simp
  then show "\<bar>fl (two_decimals (fl (fl (of_int cnt / of_int total_count) * 100)))
            - 100 * of_int cnt / of_int total_count\<bar> \<le> 1 / 200 + 1 / 2 ^ 39"
    by (simp add: v_def h_def p_def q_def x_def)
qed

section \<open>The funnel adapter\<close>

lemma percent_zero_total: "percent cnt 0 = Inl ZeroDivisionError"
  by (simp add: percent_def py_truediv_def)

lemma funnel_data_zero_total:
  "top_counts \<noteq> [] \<Longrightarrow> funnel_data top_counts 0 = Inl ZeroDivisionError"
  by (cases top_counts) (auto simp: percent_zero_total)

lemma funnel_data_value:
  assumes T: "0 < total_count"
    and c: "\<forall>(w, c) \<in> set top_counts. 0 \<le> c \<and> c \<le> total_count"
  shows "funnel_data top_counts total_count =
           Inr (map (\<lambda>(w, c).
                  (w, Finite (fl (two_decimals (fl (fl (of_int c / of_int total_count) * 100))))))
                top_counts)"
  using c
proof (induction top_counts)
  case Nil
  show ?case by simp
next
  case (Cons e rest)
  obtain w n where e: "e = (w, n)" by (cases e)
  from Cons.prems have n: "0 \<le> n" "n \<le> total_count" by (simp_all add: e)
  from Cons.prems have "\<forall>(w, c) \<in> set rest. 0 \<le> c \<and> c \<le> total_count" by simp
  from Cons.IH [OF this] show ?case
    by (simp add: e percent_value(1) [OF T n])
qed

lemma funnel_sum_error:
  assumes T: "0 < total_count"
    and c: "\<forall>(w, c) \<in> set top_counts. 0 \<le> c \<and> c \<le> total_count"
  shows "\<bar>sum_list (map (\<lambda>(w, c).
              fl (two_decimals (fl (fl (of_int c / of_int total_count) * 100)))) top_counts)
           - 100 * of_int (sum_list (map snd top_counts)) / of_int total_count\<bar>
         \<le> of_nat (length top_counts) * (1 / 200 + 1 / 2 ^ 39)"
  using c
proof (induction top_counts)
  case Nil
  show ?case by simp
next
  case (Cons e rest)
  obtain w n where e: "e = (w, n)" by (cases e)
  define v where "v = fl (two_decimals (fl (fl (of_int n / of_int total_count) * 100)))"
  define vs where "vs = sum_list (map (\<lambda>(w, c).
              fl (two_decimals (fl (fl (of_int c / of_int total_count) * 100)))) rest)"
  from Cons.prems have n: "0 \<le> n" "n \<le> total_count" by (simp_all add: e)
  have ev: "\<bar>v - 100 * of_int n / of_int total_count\<bar> \<le> 1 / 200 + 1 / 2 ^ 39"
    unfolding v_def by (rule percent_value(2) [OF T n])
  from Cons.prems have "\<forall>(w, c) \<in> set rest. 0 \<le> c \<and> c \<le> total_count" by simp
  from Cons.IH [OF this]
  have er: "\<bar>vs - 100 * of_int (sum_list (map snd rest)) / of_int total_count\<bar>
      \<le> of_nat (length rest) * (1 / 200 + 1 / 2 ^ 39)"
    by (simp add: vs_def)
  have split: "100 * of_int (sum_list (map snd (e # rest))) / (of_int total_count :: rat) =
      100 * of_int n / of_int total_count
      + 100 * of_int (sum_list (map snd rest)) / of_int total_count"
    by (simp add: e add_divide_distrib distrib_left)
  have "\<bar>(v + vs) - 100 * of_int (sum_list (map snd (e # rest))) / of_int total_count\<bar>
        \<le> \<bar>v - 100 * of_int n / of_int total_count\<bar>
          + \<bar>vs - 100 * of_int (sum_list (map snd rest)) / of_int total_count\<bar>"
    unfolding split by linarith
  also have "\<dots> \<le> (1 / 200 + 1 / 2 ^ 39) + of_nat (length rest) * (1 / 200 + 1 / 2 ^ 39)"
    using ev er by (rule add_mono)
  also have "\<dots> = of_nat (length (e # rest)) * (1 / 200 + 1 / 2 ^ 39)"
    by (simp add: distrib_right)
  finally show ?case by (simp add: e v_def vs_def)
qed

lemma display_customized_chart_value:
  assumes "0 < sum_list counts"
    and "\<forall>(w, c) \<in> set top_counts. 0 \<le> c \<and> c \<le> sum_list counts"
  shows "display_customized_chart top_counts words counts =
           ([Chart (Funnel
               (map (\<lambda>(w, c).
                  (w, Finite (fl (two_decimals (fl (fl (of_int c / of_int (sum_list counts)) * 100))))))
                top_counts)
               words)], None)"
  by (simp add: display_customized_chart_def funnel_data_value [OF assms])

text \<open>
  C10, as the code has it. The division is inside the comprehension over the displayed
  mapping. When the mapping has an entry and the counts sum to zero (the empty list
  included), the first division raises \<open>ZeroDivisionError\<close> and no chart is shown. When
  the mapping is empty, no division is evaluated: the adapter shows a funnel with no
  data, whatever the count list is.
\<close>

theorem funnel_division_by_zero:
  "(top_counts \<noteq> [] \<and> sum_list counts = 0 \<longrightarrow>
      display_customized_chart top_counts words counts = ([], Some ZeroDivisionError)) \<and>
   (top_counts = [] \<longrightarrow>
      display_customized_chart top_counts words counts = ([Chart (Funnel [] words)], None))"
  by (auto simp: display_customized_chart_def funnel_data_zero_total)

theorem funnel_division_by_zero_witness:
  "[([104, 105::nat], 0::int)] \<noteq> [] \<and> sum_list [0::int] = 0 \<and>
   display_customized_chart [([104, 105], 0)] [[104, 105]] [0] = ([], Some ZeroDivisionError) \<and>
   display_customized_chart [] [] [5] = ([Chart (Funnel [] [])], None)"
  using funnel_division_by_zero [of "[([104, 105], 0)]" "[0]" "[[104, 105]]"]
        funnel_division_by_zero [of "[]" "[5]" "[]"]
  by simp

text \<open>
  The claim C10 as stated fails on the input a page without words gives: the mapping,
  the word list and the count list are all empty, the counts sum to zero, and the
  adapter raises nothing and shows a funnel with no data.
\<close>

theorem funnel_empty_counterexample:
  "sum_list ([]::int list) = 0 \<and>
   display_customized_chart [] [] [] = ([Chart (Funnel [] [])], None) \<and>
   display_customized_chart [] [] [] \<noteq> ([], Some ZeroDivisionError)"
  by (simp add: display_customized_chart_def)

text \<open>
  C6, as the code has it. The denominator is the sum of the full count list, not of the
  displayed mapping. When that sum \<open>T\<close> is positive and every displayed count lies
  between 0 and \<open>T\<close>, the adapter shows a funnel with one value for each displayed
  entry, in order, and the value is \<open>round(count / T * 100, 2)\<close>: the quotient and its
  product with 100 rounded to binary64, then the decimal with 2 places nearest to the
  product, as a binary64 number. Each value is within \<open>0.005 + 2^(-39)\<close> of the exact
  percentage \<open>100 * count / T\<close> (0.005 for the decimal rounding, the rest for the
  binary64 roundings). So the values sum to
  \<open>100 * (sum of the displayed counts) / (sum of the full list)\<close> only up to that
  rounding, within \<open>0.005 + 2^(-39)\<close> for each displayed entry.
\<close>

theorem funnel_percent_sum:
  assumes "0 < sum_list counts"
    and "\<forall>(w, c) \<in> set top_counts. 0 \<le> c \<and> c \<le> sum_list counts"
  shows "display_customized_chart top_counts words counts =
           ([Chart (Funnel
               (map (\<lambda>(w, c).
                  (w, Finite (fl (two_decimals (fl (fl (of_int c / of_int (sum_list counts)) * 100))))))
                top_counts)
               words)], None) \<and>
         (\<forall>(w, c) \<in> set top_counts.
            \<bar>fl (two_decimals (fl (fl (of_int c / of_int (sum_list counts)) * 100)))
               - 100 * of_int c / of_int (sum_list counts)\<bar> \<le> 1 / 200 + 1 / 2 ^ 39) \<and>
         \<bar>sum_list (map (\<lambda>(w, c).
              fl (two_decimals (fl (fl (of_int c / of_int (sum_list counts)) * 100)))) top_counts)
            - 100 * of_int (sum_list (map snd top_counts)) / of_int (sum_list counts)\<bar>
           \<le> of_nat (length top_counts) * (1 / 200 + 1 / 2 ^ 39)"
proof (intro conjI)
  show "display_customized_chart top_counts words counts =
           ([Chart (Funnel
               (map (\<lambda>(w, c).
                  (w, Finite (fl (two_decimals (fl (fl (of_int c / of_int (sum_list counts)) * 100))))))
                top_counts)
               words)], None)"
    using assms by (rule display_customized_chart_value)
  show "\<forall>(w, c) \<in> set top_counts.
            \<bar>fl (two_decimals (fl (fl (of_int c / of_int (sum_list counts)) * 100)))
               - 100 * of_int c / of_int (sum_list counts)\<bar> \<le> 1 / 200 + 1 / 2 ^ 39"
    using assms percent_value(2) by fastforce
  show "\<bar>sum_list (map (\<lambda>(w, c).
              fl (two_decimals (fl (fl (of_int c / of_int (sum_list counts)) * 100)))) top_counts)
            - 100 * of_int (sum_list (map snd top_counts)) / of_int (sum_list counts)\<bar>
           \<le> of_nat (length top_counts) * (1 / 200 + 1 / 2 ^ 39)"
    using assms by (rule funnel_sum_error)
qed

lemma half_value: "fl (two_decimals (fl (fl (2 / 4) * 100))) = 50"
  by code_simp

lemma quarter_value: "fl (two_decimals (fl (fl (1 / 4) * 100))) = 25"
  by code_simp

lemma third_value:
  "fl (two_decimals (fl (fl (1 / 3) * 100))) = 2345390243441541 / 70368744177664"
  by code_simp

lemma funnel_top2_of_4:
  "display_customized_chart [([104, 105], 2), ([111, 107], 1)] [[104, 105], [111, 107]] [2, 1, 1] =
     ([Chart (Funnel [([104, 105], Finite 50), ([111, 107], Finite 25)]
         [[104, 105], [111, 107]])], None)"
  using display_customized_chart_value
    [of "[2, 1, 1]" "[([104, 105], 2), ([111, 107], 1)]" "[[104, 105], [111, 107]]"]
    half_value quarter_value
  by simp

lemma funnel_thirds:
  "display_customized_chart [([97, 97], 1), ([98, 98], 1), ([99, 99], 1)]
       [[97, 97], [98, 98], [99, 99]] [1, 1, 1] =
     ([Chart (Funnel [([97, 97], Finite (2345390243441541 / 70368744177664)),
                      ([98, 98], Finite (2345390243441541 / 70368744177664)),
                      ([99, 99], Finite (2345390243441541 / 70368744177664))]
         [[97, 97], [98, 98], [99, 99]])], None)"
  using display_customized_chart_value
    [of "[1, 1, 1]" "[([97, 97], 1), ([98, 98], 1), ([99, 99], 1)]"
        "[[97, 97], [98, 98], [99, 99]]"]
    third_value
  by simp

text \<open>
  The top 2 of the count list 2, 1, 1: the values are 50 and 25 and sum to 75, which is
  \<open>100 * 3 / 4\<close>, not 100.
\<close>

theorem funnel_percent_sum_witness:
  "0 < sum_list [2, 1, 1::int] \<and>
   (0::int) \<le> 2 \<and> 2 \<le> sum_list [2, 1, 1::int] \<and> (0::int) \<le> 1 \<and> 1 \<le> sum_list [2, 1, 1::int] \<and>
   display_customized_chart [([104, 105], 2), ([111, 107], 1)] [[104, 105], [111, 107]] [2, 1, 1] =
     ([Chart (Funnel [([104, 105], Finite 50), ([111, 107], Finite 25)]
         [[104, 105], [111, 107]])], None) \<and>
   (50::rat) + 25 =
     100 * of_int (sum_list (map snd [([104, 105::nat], 2::int), ([111, 107], 1)]))
       / of_int (sum_list [2, 1, 1::int])"
  using funnel_percent_sum
    [of "[2, 1, 1]" "[([104, 105], 2), ([111, 107], 1)]" "[[104, 105], [111, 107]]"]
    funnel_top2_of_4
  by simp

text \<open>
  The claim C6 as stated fails on three displayed words of count 1 each, with the count
  list 1, 1, 1: each value is the binary64 number written 33.33, which is
  \<open>2345390243441541 / 2^46\<close>, and the three values sum to less than 99.99, not to
  \<open>100 * 3 / 3\<close>.
\<close>

theorem funnel_thirds_counterexample:
  "display_customized_chart [([97, 97], 1), ([98, 98], 1), ([99, 99], 1)]
       [[97, 97], [98, 98], [99, 99]] [1, 1, 1] =
     ([Chart (Funnel [([97, 97], Finite (2345390243441541 / 70368744177664)),
                      ([98, 98], Finite (2345390243441541 / 70368744177664)),
                      ([99, 99], Finite (2345390243441541 / 70368744177664))]
         [[97, 97], [98, 98], [99, 99]])], None) \<and>
   (2345390243441541 / 70368744177664 :: rat) + 2345390243441541 / 70368744177664
       + 2345390243441541 / 70368744177664 \<noteq>
     100 * of_int (sum_list (map snd [([97, 97::nat], 1::int), ([98, 98], 1), ([99, 99], 1)]))
       / of_int (sum_list [1, 1, 1::int])"
  using funnel_thirds by simp

section \<open>The image lister\<close>

lemma display_images_loop_all_src:
  "display_images_loop env (map Some urls) = (map (show_image env) urls, None)"
  by (induction urls) simp_all

text \<open>
  For any page: the loop shows one item for each tag up to the first tag without a
  source, and that tag is the only thing that stops it.
\<close>

lemma display_images_loop_general:
  "display_images_loop env images =
     (map (\<lambda>img. show_image env (the img)) (takeWhile (\<lambda>img. img \<noteq> None) images),
      if list_all (\<lambda>img. img \<noteq> None) images then None else Some KeyError)"
  by (induction images) (auto split: option.splits)

text \<open>
  On a page whose \<open>img\<close> tags all carry a source, the image lister shows the header
  and then exactly one item for each tag, in document order: the image when its download
  and display succeed, the warning for that image when its download fails. No exception
  escapes, so an image that fails to download never stops the images after it.
\<close>

lemma display_images_partial_failure:
  "display_images env (map Some urls) =
     (if urls = [] then ([Write_no_images], None)
      else (Write_images_header # map (show_image env) urls, None)) \<and>
   (urlopen_read env u = Inl e \<longrightarrow> show_image env u = Warning u e) \<and>
   (urlopen_read env u = Inr b \<and> st_image env b u = None \<longrightarrow> show_image env u = Image b u)"
  by (simp add: display_images_def display_images_loop_all_src show_image_def)

text \<open>
  The page with three images of which the second cannot be downloaded: the header, the
  first image, the warning for the second, the third image.
\<close>

lemma display_images_three:
  "display_images gallery_env (map Some [''a.png'', ''b.png'', ''c.png'']) =
     ([Write_images_header,
       Image [97, 46, 112, 110, 103] ''a.png'',
       Warning ''b.png'' (Raised ''HTTP Error 404: Not Found''),
       Image [99, 46, 112, 110, 103] ''c.png''], None)"
  using display_images_partial_failure [of gallery_env "[''a.png'', ''b.png'', ''c.png'']"]
  by (simp add: gallery_env_def show_image_def)

text \<open>
  C8. The claim is that one bad image never stops the gallery: each image that fails
  gets its own warning and the images after it are still shown. The code departs from
  it on a page with an \<open>img\<close> tag that has no \<open>src\<close> attribute. On the page with
  \<open>b.png\<close> (which cannot be downloaded), a tag without \<open>src\<close>, and \<open>c.png\<close>, the image
  lister shows the header and the warning for \<open>b.png\<close>, then \<open>KeyError\<close> leaves it at
  the tag without \<open>src\<close>, and \<open>c.png\<close> is never shown; \<open>run\<close> writes one error message
  for the whole gallery in its place.
\<close>

theorem display_images_src_less_aborts:
  "display_images lazy_gallery_env [Some ''b.png'', None, Some ''c.png''] =
     ([Write_images_header, Warning ''b.png'' (Raised ''HTTP Error 404: Not Found'')],
      Some KeyError) \<and>
   run lazy_gallery_env ''http://example.org/'' (Some Show_images) True =
     ([Write_images_header, Warning ''b.png'' (Raised ''HTTP Error 404: Not Found''),
       Write_error KeyError], None)"
proof
  show images: "display_images lazy_gallery_env [Some ''b.png'', None, Some ''c.png''] =
     ([Write_images_header, Warning ''b.png'' (Raised ''HTTP Error 404: Not Found'')],
      Some KeyError)"
    by (simp add: display_images_def show_image_def lazy_gallery_env_def)
  have page: "get_web_content lazy_gallery_env ''http://example.org/'' = Inr ([], [], [])"
    by (simp add: get_web_content_def lazy_gallery_env_def normalize_def aggregate_def
        py_sorted_reverse_def top_words_of_def top_counts_of_def)
  have tags: "requests_get lazy_gallery_env (Suc 0) ''http://example.org/'' =
        Inr \<lparr>status_code = 200, content = []\<rparr>"
      "soup_find_imgs lazy_gallery_env [] = Inr [Some ''b.png'', None, Some ''c.png'']"
    by (simp_all add: lazy_gallery_env_def)
  show "run lazy_gallery_env ''http://example.org/'' (Some Show_images) True =
     ([Write_images_header, Warning ''b.png'' (Raised ''HTTP Error 404: Not Found''),
       Write_error KeyError], None)"
    by (simp add: run_def page tags images)
qed

section \<open>The cycle of \<open>run\<close> and the HTTP status\<close>

lemma get_web_content_response:
  assumes "requests_get env 0 url = Inr r"
    and "soup_get_text env (content r) = Inr page_text"
    and "jieba_lcut env (normalize page_text) = Inr words"
  shows "get_web_content env url =
     Inr (aggregate words,
          map fst (get_top_counts (aggregate words) 20),
          map snd (get_top_counts (aggregate words) 20))"
  using assms
  by (simp add: get_web_content_def top_lists_agree distinct_aggregate Let_def)

lemma sum_list_pos:
  "xs \<noteq> [] \<Longrightarrow> \<forall>x \<in> set xs. (0::int) < x \<Longrightarrow> 0 < sum_list xs"
  by (induction xs) (auto simp: add_pos_nonneg sum_list_nonneg less_imp_le)

lemma member_le_sum_list_int:
  "\<forall>x \<in> set xs. (0::int) \<le> x \<Longrightarrow> y \<in> set xs \<Longrightarrow> y \<le> sum_list xs"
proof (induction xs)
  case Nil
  then show ?case by simp
next
  case (Cons x xs)
  then have "0 \<le> sum_list xs" "0 \<le> x" by (simp_all add: sum_list_nonneg)
  with Cons show ?case by auto
qed

lemma set_get_top_counts:
  assumes "distinct (map fst counts)"
  shows "set (get_top_counts counts num) \<subseteq> set counts"
proof -
  obtain m where m: "py_slice_to (py_sorted_reverse snd counts) num =
      take m (py_sorted_reverse snd counts)"
    using py_slice_to_take by blast
  have "set (take m (py_sorted_reverse snd counts)) \<subseteq> set (py_sorted_reverse snd counts)"
    by (rule set_take_subset)
  then show ?thesis
    by (simp add: get_top_counts_take [OF assms] m set_py_sorted_reverse)
qed

lemma top_counts_positive:
  "(w, c) \<in> set (get_top_counts (aggregate words) num) \<Longrightarrow> 0 < c"
  using set_get_top_counts [OF distinct_aggregate] aggregate_entry by blast

text \<open>
  The funnel of the top entries of a page never divides by zero: the counts are
  positive, so their sum is positive unless there is no entry at all.
\<close>

lemma funnel_of_top:
  fixes words :: "ustr list"
  defines "top20 \<equiv> get_top_counts (aggregate words) 20"
  shows "display_customized_chart top20 (map fst top20) (map snd top20) =
     ([Chart (Funnel
         (map (\<lambda>(w, c).
            (w, Finite (fl (two_decimals
                  (fl (fl (of_int c / of_int (sum_list (map snd top20))) * 100))))))
          top20)
         (map fst top20))], None)"
proof (cases "top20 = []")
  case True
  then show ?thesis by (simp add: display_customized_chart_def)
next
  case False
  have pos: "\<forall>x \<in> set (map snd top20). 0 < x"
    using top_counts_positive unfolding top20_def by fastforce
  with False have "0 < sum_list (map snd top20)"
    by (intro sum_list_pos) simp_all
  moreover have "\<forall>(w, c) \<in> set top20. 0 \<le> c \<and> c \<le> sum_list (map snd top20)"
  proof (clarify)
    fix w c assume in_top: "(w, c) \<in> set top20"
    then have "c \<in> set (map snd top20)" by force
    moreover have "\<forall>x \<in> set (map snd top20). 0 \<le> x" using pos by (simp add: less_imp_le)
    ultimately have "c \<le> sum_list (map snd top20)" by (rule member_le_sum_list_int [rotated])
    moreover have "0 < c" using in_top top_counts_positive unfolding top20_def by blast
    ultimately show "0 \<le> c \<and> c \<le> sum_list (map snd top20)" by simp
  qed
  ultimately show ?thesis by (rule display_customized_chart_value)
qed

lemma run_fetch_raises:
  "requests_get env 0 url = Inl e \<Longrightarrow> url \<noteq> [] \<Longrightarrow> run env url selected True = ([], Some e)"
  by (simp add: run_def get_web_content_def)

lemma with_status_simps:
  "requests_get (with_status status env) n u =
     (case requests_get env n u of
        Inl e \<Rightarrow> Inl e
      | Inr r \<Rightarrow> Inr (r\<lparr>status_code := status n u\<rparr>))"
  "soup_get_text (with_status status env) = soup_get_text env"
  "soup_find_imgs (with_status status env) = soup_find_imgs env"
  "jieba_lcut (with_status status env) = jieba_lcut env"
  "urlopen_read (with_status status env) = urlopen_read env"
  "st_image (with_status status env) = st_image env"
  by (simp_all add: with_status_def)

lemma get_web_content_with_status:
  "get_web_content (with_status status env) url = get_web_content env url"
  by (simp add: get_web_content_def with_status_simps split: sum.splits)

lemma display_images_with_status:
  "display_images (with_status status env) images = display_images env images"
proof -
  have "show_image (with_status status env) = show_image env"
    by (rule ext) (simp add: show_image_def with_status_simps split: sum.splits)
  then have "display_images_loop (with_status status env) images = display_images_loop env images"
    by (induction images) (simp_all split: option.splits)
  then show ?thesis by (simp add: display_images_def)
qed

lemma run_with_status:
  "run (with_status status env) url selected button = run env url selected button"
proof -
  have imgs: "(case requests_get (with_status status env) 1 url of
                 Inl e \<Rightarrow> ([Write_error e], None)
               | Inr response \<Rightarrow>
                   (case soup_find_imgs (with_status status env) (content response) of
                      Inl e \<Rightarrow> ([Write_error e], None)
                    | Inr images \<Rightarrow>
                        (let (shown, raised) = display_images (with_status status env) images
                         in case raised of
                              None \<Rightarrow> (shown, None)
                            | Some e \<Rightarrow> (shown @ [Write_error e], None)))) =
              (case requests_get env 1 url of
                 Inl e \<Rightarrow> ([Write_error e], None)
               | Inr response \<Rightarrow>
                   (case soup_find_imgs env (content response) of
                      Inl e \<Rightarrow> ([Write_error e], None)
                    | Inr images \<Rightarrow>
                        (let (shown, raised) = display_images env images
                         in case raised of
                              None \<Rightarrow> (shown, None)
                            | Some e \<Rightarrow> (shown @ [Write_error e], None))))"
    by (simp add: display_images_with_status with_status_simps split: sum.splits)
  show ?thesis
    unfolding run_def get_web_content_with_status imgs ..
qed

text \<open>
  C1, as the code has it. The program never reads the HTTP status: a cycle does exactly
  what it does when the responses carry any other status codes. So when the fetch
  returns a response with a non-success status such as 404, its body is parsed and
  segmented, and one of the seven charts is selected, the cycle shows that chart,
  computed from the top 20 words of the body, and writes no error message.
\<close>

theorem run_ignores_http_status:
  "run (with_status status env) url selected button = run env url selected button \<and>
   (requests_get env 0 url = Inr r \<and> soup_get_text env (content r) = Inr page_text \<and>
    jieba_lcut env (normalize page_text) = Inr words \<and> url \<noteq> [] \<longrightarrow>
    (let top20 = get_top_counts (aggregate words) 20
     in run env url (Some Show_bar) True =
          ([Chart (Bar (map fst top20) (map snd top20))], None) \<and>
        run env url (Some Show_cloud) True = ([Chart (WordCloud top20)], None) \<and>
        run env url (Some Show_pie) True = ([Chart (Pie top20)], None) \<and>
        run env url (Some Show_line) True =
          ([Chart (Line (map fst top20) (map snd top20))], None) \<and>
        run env url (Some Show_scatter) True =
          ([Chart (Scatter top20 (map fst top20))], None) \<and>
        run env url (Some Show_funnel) True =
          ([Chart (Funnel
              (map (\<lambda>(w, c).
                 (w, Finite (fl (two_decimals
                       (fl (fl (of_int c / of_int (sum_list (map snd top20))) * 100))))))
               top20)
              (map fst top20))], None) \<and>
        run env url (Some Show_area) True =
          ([Chart (Area (map fst top20) (map snd top20))], None)))"
proof (intro conjI impI)
  show "run (with_status status env) url selected button = run env url selected button"
    by (rule run_with_status)
next
  assume "requests_get env 0 url = Inr r \<and> soup_get_text env (content r) = Inr page_text \<and>
    jieba_lcut env (normalize page_text) = Inr words \<and> url \<noteq> []"
  then have page: "get_web_content env url =
     Inr (aggregate words,
          map fst (get_top_counts (aggregate words) 20),
          map snd (get_top_counts (aggregate words) 20))"
    and url: "url \<noteq> []"
    by (simp_all add: get_web_content_response)
  have same: "map (\<lambda>(word, cnt). (word, cnt)) (get_top_counts (aggregate words) 20) =
      get_top_counts (aggregate words) 20"
    by (induction "get_top_counts (aggregate words) 20") auto
  show "let top20 = get_top_counts (aggregate words) 20
     in run env url (Some Show_bar) True =
          ([Chart (Bar (map fst top20) (map snd top20))], None) \<and>
        run env url (Some Show_cloud) True = ([Chart (WordCloud top20)], None) \<and>
        run env url (Some Show_pie) True = ([Chart (Pie top20)], None) \<and>
        run env url (Some Show_line) True =
          ([Chart (Line (map fst top20) (map snd top20))], None) \<and>
        run env url (Some Show_scatter) True =
          ([Chart (Scatter top20 (map fst top20))], None) \<and>
        run env url (Some Show_funnel) True =
          ([Chart (Funnel
              (map (\<lambda>(w, c).
                 (w, Finite (fl (two_decimals
                       (fl (fl (of_int c / of_int (sum_list (map snd top20))) * 100))))))
               top20)
              (map fst top20))], None) \<and>
        run env url (Some Show_area) True =
          ([Chart (Area (map fst top20) (map snd top20))], None)"
    unfolding Let_def
  proof (intro conjI)
    show "run env url (Some Show_funnel) True =
          ([Chart (Funnel
              (map (\<lambda>(w, c).
                 (w, Finite (fl (two_decimals
                       (fl (fl (of_int c /
                          of_int (sum_list (map snd (get_top_counts (aggregate words) 20))))
                         * 100))))))
               (get_top_counts (aggregate words) 20))
              (map fst (get_top_counts (aggregate words) 20)))], None)"
      using url by (simp add: run_def page funnel_of_top)
  qed (use url in \<open>simp_all add: run_def page same display_bar_chart_def
        display_word_cloud_def display_pie_chart_def display_line_chart_def
        display_scatter_chart_def display_area_chart_def\<close>)
qed

lemma not_found_top_counts:
  "get_top_counts (aggregate [[78, 111, 116, 70, 111, 117, 110, 100]]) 20 =
     [([78, 111, 116, 70, 111, 117, 110, 100], 1)]"
  by (simp add: aggregate_def dict_set_def dict_get_def get_top_counts_def
      py_sorted_reverse_def py_slice_to_def dict_of_pairs_def)

lemma not_found_page:
  "requests_get not_found_env 0 ''http://example.org/missing'' = Inr not_found_response"
  "soup_get_text not_found_env (content not_found_response) =
     Inr [78, 111, 116, 32, 70, 111, 117, 110, 100]"
  "jieba_lcut not_found_env (normalize [78, 111, 116, 32, 70, 111, 117, 110, 100]) =
     Inr [[78, 111, 116, 70, 111, 117, 110, 100]]"
  by (simp_all add: not_found_env_def not_found_response_def normalize_def pattern_def
      in_class_def)

text \<open>
  The server that answers 404 with the body "Not Found", and the pie chart selected:
  the cycle shows the pie of the one word "NotFound", as it does when the same body
  comes with status 200.
\<close>

theorem run_ignores_http_status_witness:
  "requests_get not_found_env 0 ''http://example.org/missing'' = Inr not_found_response \<and>
   status_code not_found_response = 404 \<and>
   soup_get_text not_found_env (content not_found_response) =
     Inr [78, 111, 116, 32, 70, 111, 117, 110, 100] \<and>
   jieba_lcut not_found_env (normalize [78, 111, 116, 32, 70, 111, 117, 110, 100]) =
     Inr [[78, 111, 116, 70, 111, 117, 110, 100]] \<and>
   ''http://example.org/missing'' \<noteq> [] \<and>
   run not_found_env ''http://example.org/missing'' (Some Show_pie) True =
     ([Chart (Pie [([78, 111, 116, 70, 111, 117, 110, 100], 1)])], None) \<and>
   run (with_status (\<lambda>n u. 200) not_found_env) ''http://example.org/missing''
       (Some Show_pie) True =
     ([Chart (Pie [([78, 111, 116, 70, 111, 117, 110, 100], 1)])], None)"
  using run_ignores_http_status
    [of "\<lambda>n u. 200" not_found_env "''http://example.org/missing''" "Some Show_pie" True
        not_found_response "[78, 111, 116, 32, 70, 111, 117, 110, 100]"
        "[[78, 111, 116, 70, 111, 117, 110, 100]]"]
    not_found_page
  by (simp add: not_found_top_counts Let_def) (simp add: not_found_response_def)

text \<open>
  The claim C1 as stated fails on that server: the fetch returns status 404, and the
  cycle with the bar chart selected shows a chart and no error message.
\<close>

theorem run_not_found_counterexample:
  "status_code not_found_response = 404 \<and>
   requests_get not_found_env 0 ''http://example.org/missing'' = Inr not_found_response \<and>
   run not_found_env ''http://example.org/missing'' (Some Show_bar) True =
     ([Chart (Bar [[78, 111, 116, 70, 111, 117, 110, 100]] [1])], None) \<and>
   run not_found_env ''http://example.org/missing'' (Some Show_bar) True \<noteq>
     ([Write_error (Raised ''404 Client Error: Not Found'')], None)"
proof -
  have "run not_found_env ''http://example.org/missing'' (Some Show_bar) True =
     ([Chart (Bar [[78, 111, 116, 70, 111, 117, 110, 100]] [1])], None)"
    by (simp add: run_def get_web_content_response [OF not_found_page] not_found_top_counts
        display_bar_chart_def)
  with not_found_page(1) show ?thesis by (simp add: not_found_response_def)
qed


end
